theory Spec2Isabelle
  imports
    Main
    "HOL-Library.Multiset"
    "HOL-Library.Char_ord"
    "HOL-Library.List_Lexorder"
    "HOL-Library.Product_Lexorder"
begin

section \<open>Data model\<close>

text \<open>
  A cell of an object column of the joined table holds a Python string, Python's
  \<open>None\<close> (an SQL NULL that was read from the handle table) or the float \<open>nan\<close> that a
  left join writes where no row of the right table matched.
\<close>

datatype cell = Str string | PyNone | NaN

text \<open>
  The \<open>chat_id\<close> column is numeric; \<open>None\<close> stands for the \<open>nan\<close> of a message without
  membership link. A year-month period is the ordinal of its month.
\<close>

type_synonym chat = "int option"
type_synonym period = int

text \<open>The twelve message columns that \<open>merge_data\<close> selects.\<close>

record message =
  msg_text :: cell
  handle_id :: int
  date :: int
  message_date :: int
  timestamp :: int
  month :: int
  year :: int
  year_month :: period
  hour :: int
  minute :: int
  is_sent :: int
  message_id :: int

record handle =
  h_handle_id :: int
  h_sender :: cell

record chat_message_join =
  j_chat_id :: int
  j_message_id :: int

text \<open>A row of the joined table: the message columns, then \<open>sender\<close> and \<open>chat_id\<close>.\<close>

record row =
  msg :: message
  sender :: cell
  chat_id :: chat

type_synonym table = "row list"

section \<open>Python values\<close>

text \<open>Truth value of a cell: the empty string and \<open>None\<close> are false, \<open>nan\<close> is true.\<close>

fun truthy :: "cell \<Rightarrow> bool" where
  "truthy (Str s) = (s \<noteq> [])"
| "truthy PyNone = False"
| "truthy NaN = True"

text \<open>Python's \<open>!=\<close> on cells: \<open>nan\<close> differs from everything, itself included.\<close>

fun py_ne :: "cell \<Rightarrow> cell \<Rightarrow> bool" where
  "py_ne (Str a) (Str b) = (a \<noteq> b)"
| "py_ne PyNone PyNone = False"
| "py_ne _ _ = True"

text \<open>A cell is null, in the sense of \<open>isna\<close>, when it holds \<open>None\<close> or \<open>nan\<close>.\<close>

fun is_null :: "cell \<Rightarrow> bool" where
  "is_null (Str s) = False"
| "is_null PyNone = True"
| "is_null NaN = True"

text \<open>
  A Python dict keeps its keys in insertion order; assigning to a present key keeps the
  key's place.
\<close>

fun dict_set :: "('k \<times> 'v) list \<Rightarrow> 'k \<Rightarrow> 'v \<Rightarrow> ('k \<times> 'v) list" where
  "dict_set [] k v = [(k, v)]"
| "dict_set ((k', v') # d) k v =
     (if k' = k then (k', v) # d else (k', v') # dict_set d k v)"

text \<open>
  In a dict keyed by \<open>chat_id\<close> a \<open>nan\<close> key is never found again (each row carries
  its own float object, and \<open>nan\<close> is not equal to itself): \<open>get\<close> misses and an
  assignment makes a new entry. This is the numeric \<open>chat_id\<close> column that a join with
  a non-empty link table gives. (With an empty link table the column is an object
  column whose \<open>nan\<close> cells are one object; the model does not cover that table.)
\<close>

definition ids_get :: "(chat \<times> cell) list \<Rightarrow> chat \<Rightarrow> cell option" where
  "ids_get d k = (case k of None \<Rightarrow> None | Some c \<Rightarrow> map_of d (Some c))"

definition ids_set :: "(chat \<times> cell) list \<Rightarrow> chat \<Rightarrow> cell \<Rightarrow> (chat \<times> cell) list" where
  "ids_set d k v = (case k of None \<Rightarrow> d @ [(None, v)] | Some c \<Rightarrow> dict_set d (Some c) v)"

section \<open>Conversation classifier\<close>

record scan_state =
  ids_to_senders :: "(chat \<times> cell) list"
  banned_ids :: "chat set"

text \<open>
  The body of the loop over the rows, the same in \<open>get_dm_chat_ids\<close> and
  \<open>get_group_chat_ids\<close>: \<open>not ids_to_senders.get(chat_id)\<close> holds when the key is
  absent and also when the recorded sender is false as a truth value.
\<close>

definition scan_row :: "row \<Rightarrow> scan_state \<Rightarrow> scan_state" where
  "scan_row r st =
     (case ids_get (ids_to_senders st) (chat_id r) of
        None \<Rightarrow> st\<lparr>ids_to_senders := ids_set (ids_to_senders st) (chat_id r) (sender r)\<rparr>
      | Some v \<Rightarrow>
          if \<not> truthy v
          then st\<lparr>ids_to_senders := ids_set (ids_to_senders st) (chat_id r) (sender r)\<rparr>
          else if py_ne v (sender r)
          then st\<lparr>banned_ids := insert (chat_id r) (banned_ids st)\<rparr>
          else st)"

definition scan_init :: scan_state where
  "scan_init = \<lparr>ids_to_senders = [], banned_ids = {}\<rparr>"

definition classifier_scan :: "table \<Rightarrow> scan_state" where
  "classifier_scan rows = fold scan_row rows scan_init"

definition get_group_chat_ids :: "table \<Rightarrow> chat set" where
  "get_group_chat_ids df_messages = banned_ids (classifier_scan df_messages)"

text \<open>
  \<open>get_dm_chat_ids\<close> deletes the banned keys and inverts what is left, entry by entry in
  the dict's order, into a dict from sender to id. In that dict two equal strings are
  one key, and so are two \<open>None\<close> and two \<open>nan\<close> senders (the \<open>nan\<close> cells of an
  object column are one object).
\<close>

definition invert_dict :: "('k \<times> 'v) list \<Rightarrow> ('v \<times> 'k) list" where
  "invert_dict d = fold (\<lambda>(i, s) acc. dict_set acc s i) d []"

definition get_dm_chat_ids :: "table \<Rightarrow> (cell \<times> chat) list" where
  "get_dm_chat_ids df_messages =
     (let st = classifier_scan df_messages;
          kept = filter (\<lambda>(i, s). i \<notin> banned_ids st) (ids_to_senders st)
      in invert_dict kept)"

text \<open>
  What the inversion is to return for a sender, in the words of the specification: the
  id of the last entry, in the dict's order, that carries this sender.
\<close>

fun last_id_for :: "('k \<times> 'v) list \<Rightarrow> 'v \<Rightarrow> 'k option" where
  "last_id_for [] s = None"
| "last_id_for ((i, s') # d) s =
     (case last_id_for d s of
        Some j \<Rightarrow> Some j
      | None \<Rightarrow> if s' = s then Some i else None)"

text \<open>The entries of the scan's dict whose id was not banned.\<close>

definition unbanned_entries :: "table \<Rightarrow> (chat \<times> cell) list" where
  "unbanned_entries df_messages =
     filter (\<lambda>(i, s). i \<notin> get_group_chat_ids df_messages)
       (ids_to_senders (classifier_scan df_messages))"

section \<open>Joiner\<close>

text \<open>
  A left join keeps the rows of the left table in their order; a left row is paired with
  every right row of the same key, in the right table's order, and appears once, with
  \<open>nan\<close> in the new column, when no right row has its key. Chat ids are kept as exact
  integers (an unmatched message turns the column into floats, which are exact below
  \<open>2 ^ 53\<close>).
\<close>

definition merge_handles :: "message list \<Rightarrow> handle list \<Rightarrow> (message \<times> cell) list" where
  "merge_handles messages handles =
     concat (map (\<lambda>m.
       let matches = filter (\<lambda>h. h_handle_id h = handle_id m) handles
       in if matches = [] then [(m, NaN)] else map (\<lambda>h. (m, h_sender h)) matches) messages)"

definition merge_joins :: "(message \<times> cell) list \<Rightarrow> chat_message_join list \<Rightarrow> table" where
  "merge_joins merge_level_1 chat_message_joins =
     concat (map (\<lambda>(m, s).
       let matches = filter (\<lambda>j. j_message_id j = message_id m) chat_message_joins
       in if matches = [] then [\<lparr>msg = m, sender = s, chat_id = None\<rparr>]
          else map (\<lambda>j. \<lparr>msg = m, sender = s, chat_id = Some (j_chat_id j)\<rparr>) matches)
       merge_level_1)"

definition merge_data :: "message list \<Rightarrow> handle list \<Rightarrow> chat_message_join list \<Rightarrow> table" where
  "merge_data messages handles chat_message_joins =
     merge_joins (merge_handles messages handles) chat_message_joins"

text \<open>The number of membership links of a message.\<close>

definition memberships :: "chat_message_join list \<Rightarrow> message \<Rightarrow> nat" where
  "memberships chat_message_joins m =
     length (filter (\<lambda>j. j_message_id j = message_id m) chat_message_joins)"

section \<open>Filters\<close>

datatype error = TypeError | IndexError

text \<open>
  The pattern \<open>@|^\+|^\d\<close>, searched in a string: an \<open>@\<close> anywhere, or a \<open>+\<close> or a
  digit at the start. Characters are 8-bit code points, among which the digits are
  \<open>0\<close> to \<open>9\<close>.
\<close>

definition is_digit :: "char \<Rightarrow> bool" where
  "is_digit c = (CHR ''0'' \<le> c \<and> c \<le> CHR ''9'')"

definition no_contact_pattern :: "string \<Rightarrow> bool" where
  "no_contact_pattern s =
     (CHR ''@'' \<in> set s \<or>
      (case s of [] \<Rightarrow> False | c # _ \<Rightarrow> c = CHR ''+'' \<or> is_digit c))"

text \<open>
  The repository does not pin its pandas version, and the dtype of the \<open>sender\<close> column
  follows the version: an object column up to pandas 2, a str column from pandas 3.
\<close>

datatype sender_dtype = ObjectDtype | StrDtype

text \<open>
  \<open>Series.str.contains\<close>, called without \<open>na=\<close>, gives a truth value for a string. For
  a null sender it gives the missing value on an object column and \<open>False\<close> on a str
  column. The operator \<open>~\<close> negates a mask of truth values; on a mask that holds a
  missing value it raises \<open>TypeError\<close>.
\<close>

fun str_contains :: "sender_dtype \<Rightarrow> cell \<Rightarrow> bool option" where
  "str_contains dt (Str s) = Some (no_contact_pattern s)"
| "str_contains ObjectDtype PyNone = None"
| "str_contains ObjectDtype NaN = None"
| "str_contains StrDtype PyNone = Some False"
| "str_contains StrDtype NaN = Some False"

definition invert_mask :: "bool option list \<Rightarrow> error + bool list" where
  "invert_mask msk =
     (case those msk of None \<Rightarrow> Inl TypeError | Some bs \<Rightarrow> Inr (map Not bs))"

text \<open>
  Frames live in a store, addressed by their position. Indexing a frame with a mask,
  \<open>df[mask]\<close>, leaves every frame of the store as it is and puts the selected rows into
  a new frame.
\<close>

type_synonym store = "table list"

definition select_rows :: "table \<Rightarrow> bool list \<Rightarrow> table" where
  "select_rows t msk = map fst (filter snd (zip t msk))"

definition getitem_mask :: "store \<Rightarrow> nat \<Rightarrow> bool list \<Rightarrow> nat \<times> store" where
  "getitem_mask h df msk = (length h, h @ [select_rows (h ! df) msk])"

definition remove_no_contact_senders ::
    "sender_dtype \<Rightarrow> store \<Rightarrow> nat \<Rightarrow> error + nat \<times> store" where
  "remove_no_contact_senders dt h df_messages =
     (case invert_mask (map (\<lambda>r. str_contains dt (sender r)) (h ! df_messages)) of
        Inl e \<Rightarrow> Inl e
      | Inr msk \<Rightarrow> Inr (getitem_mask h df_messages msk))"

definition filter_groups :: "store \<Rightarrow> nat \<Rightarrow> nat \<times> store" where
  "filter_groups h df_messages =
     (let banned_ids = get_group_chat_ids (h ! df_messages)
      in getitem_mask h df_messages
           (map (\<lambda>r. \<not> (chat_id r \<in> banned_ids)) (h ! df_messages)))"

definition filter_funusha :: "store \<Rightarrow> nat \<Rightarrow> nat \<times> store" where
  "filter_funusha h df_messages =
     getitem_mask h df_messages (map (\<lambda>r. \<not> (chat_id r = Some 12)) (h ! df_messages))"

definition single_chat :: "store \<Rightarrow> nat \<Rightarrow> int \<Rightarrow> nat \<times> store" where
  "single_chat h df_messages c =
     getitem_mask h df_messages (map (\<lambda>r. chat_id r = Some c) (h ! df_messages))"

section \<open>Entry point\<close>

text \<open>
  The process prints lines and the script ends by returning, by \<open>sys.exit\<close> or by an
  exception. A statement is a function of the lines printed so far.
\<close>

datatype 'a outcome = Returned 'a | SystemExit int | Raised error

type_synonym 'a prog = "string list \<Rightarrow> 'a outcome \<times> string list"

definition py_print :: "string \<Rightarrow> unit prog" where
  "py_print line out = (Returned (), out @ [line])"

definition sys_exit :: "int \<Rightarrow> 'a prog" where
  "sys_exit code out = (SystemExit code, out)"

definition skip :: "unit prog" where
  "skip out = (Returned (), out)"

definition raise :: "error \<Rightarrow> 'a prog" where
  "raise e out = (Raised e, out)"

definition seq :: "'a prog \<Rightarrow> ('a \<Rightarrow> 'b prog) \<Rightarrow> 'b prog" where
  "seq p q out =
     (case p out of
        (Returned x, out') \<Rightarrow> q x out'
      | (SystemExit code, out') \<Rightarrow> (SystemExit code, out')
      | (Raised e, out') \<Rightarrow> (Raised e, out'))"

text \<open>
  The block under \<open>if __name__ == "__main__"\<close>. The statements after \<open>sys.exit(1)\<close>
  (opening the database named by \<open>sys.argv[1]\<close>, loading, joining, filtering and the two
  printed sections) are the parameter \<open>analysis\<close>, a program of the path.
\<close>

definition main_block :: "string list \<Rightarrow> (string \<Rightarrow> unit prog) \<Rightarrow> unit prog" where
  "main_block argv analysis =
     seq (if length argv < 2
          then py_print ''ERROR: Please provide the path to your chat.db file.''
          else skip)
       (\<lambda>_. seq (sys_exit 1 :: unit prog)
         (\<lambda>_. case argv of
                 _ # message_database # _ \<Rightarrow> analysis message_database
               | _ \<Rightarrow> raise IndexError))"

section \<open>Aggregators\<close>

text \<open>
  The table of message counts per year-month period and sender: the index pair and the
  \<open>message_id\<close> count.
\<close>

type_synonym counts_table = "((period \<times> string) \<times> int) list"

text \<open>
  The group key of a row. \<open>groupby\<close> drops the rows whose key holds a null, so only
  rows with a string sender belong to a group.
\<close>

definition group_key :: "row \<Rightarrow> (period \<times> string) option" where
  "group_key r = (case sender r of Str s \<Rightarrow> Some (year_month (msg r), s) | _ \<Rightarrow> None)"

text \<open>
  \<open>groupby(["year_month", "sender"]).agg({"message_id": "count"})\<close>: one row for each
  key that occurs, the keys in ascending order, with the number of rows of the group.
\<close>

definition groupby_count :: "table \<Rightarrow> counts_table" where
  "groupby_count df_messages =
     (let keys = List.map_filter group_key df_messages
      in map (\<lambda>k. (k, int (count_list keys k))) (sort (remdups keys)))"

text \<open>
  \<open>sort_values(["year_month", "message_id"], ascending=[True, False])\<close>: a stable sort,
  by period ascending and then by count descending.
\<close>

definition sort_values :: "counts_table \<Rightarrow> counts_table" where
  "sort_values grouped = sort_key (\<lambda>r. (fst (fst r), - snd r)) grouped"

text \<open>
  \<open>groupby("year_month").head(top_x)\<close> keeps, in the order of the table, each row that
  has fewer than \<open>top_x\<close> rows of its own period before it. \<open>seen\<close> holds the periods
  of the rows passed so far.
\<close>

fun group_head :: "nat \<Rightarrow> period list \<Rightarrow> counts_table \<Rightarrow> counts_table" where
  "group_head top_x seen [] = []"
| "group_head top_x seen (r # rs) =
     (if count_list seen (fst (fst r)) < top_x
      then r # group_head top_x (fst (fst r) # seen) rs
      else group_head top_x (fst (fst r) # seen) rs)"

definition get_top_senders_by_month :: "table \<Rightarrow> nat \<Rightarrow> counts_table" where
  "get_top_senders_by_month df_messages top_x =
     (let grouped = groupby_count df_messages;
          sorted_data = sort_values grouped
      in group_head top_x [] sorted_data)"

text \<open>
  In the words of the specification: the rows of one period, and the senders of a
  period ranked by descending count, ties in the order of the grouped table.
\<close>

definition period_rows :: "period \<Rightarrow> counts_table \<Rightarrow> counts_table" where
  "period_rows p t = filter (\<lambda>r. fst (fst r) = p) t"

definition ranked_senders :: "table \<Rightarrow> period \<Rightarrow> counts_table" where
  "ranked_senders df_messages p =
     sort_key (\<lambda>r. - snd r) (period_rows p (groupby_count df_messages))"

section \<open>Ranker\<close>













section \<open>Example rows\<close>

text \<open>A message with the given id, every other column at a fixed value.\<close>

definition blank_message :: "int \<Rightarrow> message" where
  "blank_message i =
     \<lparr>msg_text = PyNone, handle_id = 0, date = 0, message_date = 0, timestamp = 0,
      month = 1, year = 2001, year_month = 0, hour = 0, minute = 0, is_sent = 0,
      message_id = i\<rparr>"

definition mk_row :: "int \<Rightarrow> cell \<Rightarrow> chat \<Rightarrow> row" where
  "mk_row i s c = \<lparr>msg = blank_message i, sender = s, chat_id = c\<rparr>"

section \<open>Properties of the classifier\<close>

lemma banned_scan_row: "banned_ids st \<subseteq> banned_ids (scan_row r st)"
  by (auto simp: scan_row_def split: option.splits)

lemma banned_fold_scan: "banned_ids st \<subseteq> banned_ids (fold scan_row rows st)"
proof (induction rows arbitrary: st)
  case Nil
  show ?case by simp
next
  case (Cons r rows)
  have "banned_ids st \<subseteq> banned_ids (scan_row r st)" by (rule banned_scan_row)
  also have "\<dots> \<subseteq> banned_ids (fold scan_row rows (scan_row r st))" by (rule Cons.IH)
  finally show ?case by simp
qed

text \<open>
  Claim C5. The banned set only grows along the traversal: an id that is banned after
  the rows \<open>xs\<close> is in the set returned for \<open>xs @ ys\<close>, whatever the later rows \<open>ys\<close> are.
\<close>

theorem banned_monotonic:
  "k \<in> get_group_chat_ids xs \<Longrightarrow> k \<in> get_group_chat_ids (xs @ ys)"
  using banned_fold_scan [of "fold scan_row xs scan_init" ys]
  by (auto simp: get_group_chat_ids_def classifier_scan_def)

theorem banned_monotonic_witness:
  "Some 5 \<in> get_group_chat_ids [mk_row 1 (Str ''Alice'') (Some 5), mk_row 2 (Str ''Bob'') (Some 5)]
   \<and> Some 5 \<in> get_group_chat_ids
        ([mk_row 1 (Str ''Alice'') (Some 5), mk_row 2 (Str ''Bob'') (Some 5)]
         @ [mk_row 3 (Str ''Alice'') (Some 5), mk_row 4 (Str ''Alice'') (Some 5)])"
proof -
  have h: "Some 5 \<in> get_group_chat_ids
      [mk_row 1 (Str ''Alice'') (Some 5), mk_row 2 (Str ''Bob'') (Some 5)]"
    by (simp add: get_group_chat_ids_def classifier_scan_def scan_init_def scan_row_def
        ids_get_def ids_set_def mk_row_def)
  show ?thesis using h banned_monotonic [OF h] by simp
qed

text \<open>
  Claim C1 says that every id outside the banned set has one sender on all its rows. The
  scan tests \<open>not ids_to_senders.get(chat_id)\<close>, which is also true when the recorded
  sender is the empty string (or \<open>None\<close>): the next row of the conversation then
  replaces the recorded sender instead of being compared with it. Here conversation 1
  has an empty sender and the sender Alice, and is not banned.
\<close>

theorem empty_sender_escapes_ban:
  "get_group_chat_ids [mk_row 1 (Str []) (Some 1), mk_row 2 (Str ''Alice'') (Some 1)] = {}
   \<and> sender (mk_row 1 (Str []) (Some 1)) \<noteq> sender (mk_row 2 (Str ''Alice'') (Some 1))
   \<and> get_dm_chat_ids [mk_row 1 (Str []) (Some 1), mk_row 2 (Str ''Alice'') (Some 1)]
       = [(Str ''Alice'', Some 1)]"
  by (simp add: get_group_chat_ids_def get_dm_chat_ids_def invert_dict_def classifier_scan_def
      scan_init_def scan_row_def ids_get_def ids_set_def mk_row_def)

text \<open>
  Claim C2 says that an id first seen with a null sender is recorded with it and banned
  on the first later row of that id with a non-null sender. With Python's \<open>None\<close> as the
  null the id is recorded with \<open>None\<close>, but the later row overwrites the record (the same
  truth-value test as above) and the id is not banned.
\<close>

theorem none_first_seen_not_banned:
  "ids_to_senders (classifier_scan [mk_row 1 PyNone (Some 1)]) = [(Some 1, PyNone)]
   \<and> get_group_chat_ids [mk_row 1 PyNone (Some 1), mk_row 2 (Str ''Alice'') (Some 1)] = {}
   \<and> ids_to_senders (classifier_scan [mk_row 1 PyNone (Some 1), mk_row 2 (Str ''Alice'') (Some 1)])
       = [(Some 1, Str ''Alice'')]"
  by (simp add: get_group_chat_ids_def classifier_scan_def
      scan_init_def scan_row_def ids_get_def ids_set_def mk_row_def)

subsection \<open>Dicts\<close>

lemma map_of_dict_set: "map_of (dict_set d k v) = (map_of d)(k \<mapsto> v)"
  by (induction d) (auto simp: fun_eq_iff)

lemma fst_set_dict_set: "fst ` set (dict_set d k v) = insert k (fst ` set d)"
proof (induction d)
  case Nil
  show ?case by simp
next
  case (Cons e d)
  obtain k' v' where e: "e = (k', v')" by (cases e)
  show ?case
  proof (cases "k' = k")
    case True
    with e show ?thesis by simp
  next
    case False
    with e Cons.IH show ?thesis by (simp add: insert_commute)
  qed
qed

lemma distinct_dict_set: "distinct (map fst d) \<Longrightarrow> distinct (map fst (dict_set d k v))"
proof (induction d)
  case Nil
  show ?case by simp
next
  case (Cons e d)
  obtain k' v' where e: "e = (k', v')" by (cases e)
  show ?case
  proof (cases "k' = k")
    case True
    with Cons.prems e show ?thesis by simp
  next
    case False
    have "k' \<notin> fst ` set (dict_set d k v)"
      using Cons.prems e False by (simp add: fst_set_dict_set)
    with Cons e False show ?thesis by simp
  qed
qed

lemma set_dict_set: "set (dict_set d k v) \<subseteq> insert (k, v) (set d)"
  by (induction d) (auto split: if_splits)


subsection \<open>What the scan does guarantee\<close>

lemma py_ne_False: "\<not> py_ne a b \<Longrightarrow> a = b"
  by (cases a; cases b) auto

lemma ids_get_ids_set:
  "ids_get (ids_set d k v) (Some c) = (if k = Some c then Some v else ids_get d (Some c))"
  by (cases k) (auto simp: ids_get_def ids_set_def map_of_dict_set map_add_def split: option.splits)

lemma set_ids_set: "set (ids_set d k v) \<subseteq> insert (k, v) (set d)"
  using set_dict_set [of d k v] by (cases k) (auto simp: ids_set_def)

lemma ids_get_in_set: "ids_get d k = Some v \<Longrightarrow> (k, v) \<in> set d"
  by (cases k) (auto simp: ids_get_def dest: map_of_SomeD)

text \<open>
  A \<open>nan\<close> id is never banned and every banned id is a key of the dict, so the
  deletion of the banned keys finds each of them.
\<close>

lemma banned_ids_not_nan: "None \<notin> banned_ids (classifier_scan rows)"
proof (induction rows rule: rev_induct)
  case Nil
  show ?case by (simp add: classifier_scan_def scan_init_def)
next
  case (snoc r rows)
  have "classifier_scan (rows @ [r]) = scan_row r (classifier_scan rows)"
    by (simp add: classifier_scan_def)
  with snoc show ?case
    by (auto simp: scan_row_def ids_get_def split: option.splits if_splits)
qed

lemma banned_ids_recorded:
  "k \<in> banned_ids (classifier_scan rows) \<Longrightarrow> k \<in> fst ` set (ids_to_senders (classifier_scan rows))"
proof (induction rows rule: rev_induct)
  case Nil
  then show ?case by (simp add: classifier_scan_def scan_init_def)
next
  case (snoc r rows)
  let ?st = "classifier_scan rows"
  have step: "classifier_scan (rows @ [r]) = scan_row r ?st"
    by (simp add: classifier_scan_def)
  have keys: "fst ` set (ids_to_senders ?st) \<subseteq> fst ` set (ids_to_senders (scan_row r ?st))"
    by (cases "chat_id r")
      (auto simp: scan_row_def ids_set_def fst_set_dict_set split: option.splits)
  show ?case
  proof (cases "k \<in> banned_ids ?st")
    case True
    with snoc.IH keys show ?thesis unfolding step by blast
  next
    case False
    with snoc.prems obtain v where "k = chat_id r" "ids_get (ids_to_senders ?st) (chat_id r) = Some v"
      unfolding step by (auto simp: scan_row_def split: option.splits if_splits)
    then have "k \<in> fst ` set (ids_to_senders ?st)"
      by (metis ids_get_in_set fst_conv image_eqI)
    with keys show ?thesis unfolding step by blast
  qed
qed

text \<open>
  When no sender is false as a truth value, the scan keeps its promise: an id that is
  not banned has one sender on all its rows.
\<close>

lemma scan_invariant_truthy:
  assumes "\<forall>r \<in> set rows. truthy (sender r)"
  shows "(\<forall>k v. (k, v) \<in> set (ids_to_senders (classifier_scan rows)) \<longrightarrow> truthy v) \<and>
         (\<forall>c. Some c \<notin> banned_ids (classifier_scan rows) \<longrightarrow>
            (case ids_get (ids_to_senders (classifier_scan rows)) (Some c) of
               None \<Rightarrow> \<forall>r \<in> set rows. chat_id r \<noteq> Some c
             | Some v \<Rightarrow> \<forall>r \<in> set rows. chat_id r = Some c \<longrightarrow> sender r = v))"
  using assms
proof (induction rows rule: rev_induct)
  case Nil
  show ?case by (simp add: classifier_scan_def scan_init_def ids_get_def)
next
  case (snoc r rows)
  define st where "st = classifier_scan rows"
  define d where "d = ids_to_senders st"
  have step: "classifier_scan (rows @ [r]) = scan_row r st"
    by (simp add: classifier_scan_def st_def)
  have tr: "truthy (sender r)" using snoc.prems by simp
  have ih_t: "truthy v" if "(k, v) \<in> set d" for k v
    using snoc that unfolding d_def st_def by auto
  have ih_c: "(case ids_get d (Some c) of
               None \<Rightarrow> \<forall>r \<in> set rows. chat_id r \<noteq> Some c
             | Some v \<Rightarrow> \<forall>r \<in> set rows. chat_id r = Some c \<longrightarrow> sender r = v)"
    if "Some c \<notin> banned_ids st" for c
    using snoc that unfolding d_def st_def by auto
  show ?case
  proof (cases "ids_get d (chat_id r)")
    case None
    then have st': "scan_row r st = st\<lparr>ids_to_senders := ids_set d (chat_id r) (sender r)\<rparr>"
      by (simp add: scan_row_def d_def)
    have t: "truthy v" if "(k, v) \<in> set (ids_set d (chat_id r) (sender r))" for k v
      using that set_ids_set [of d "chat_id r" "sender r"] ih_t tr by auto
    have c: "(case ids_get (ids_set d (chat_id r) (sender r)) (Some c) of
               None \<Rightarrow> \<forall>x \<in> set (rows @ [r]). chat_id x \<noteq> Some c
             | Some v \<Rightarrow> \<forall>x \<in> set (rows @ [r]). chat_id x = Some c \<longrightarrow> sender x = v)"
      if "Some c \<notin> banned_ids st" for c
      using ih_c [OF that] None
      by (auto simp: ids_get_ids_set split: option.splits)
    show ?thesis unfolding step st' using t c by simp
  next
    case (Some v)
    then have "(chat_id r, v) \<in> set d" by (rule ids_get_in_set)
    then have tv: "truthy v" by (rule ih_t)
    from Some obtain c0 where c0: "chat_id r = Some c0"
      by (cases "chat_id r") (auto simp: ids_get_def)
    show ?thesis
    proof (cases "py_ne v (sender r)")
      case True
      then have st': "scan_row r st = st\<lparr>banned_ids := insert (chat_id r) (banned_ids st)\<rparr>"
        using Some tv by (simp add: scan_row_def d_def)
      have c: "(case ids_get d (Some c) of
               None \<Rightarrow> \<forall>x \<in> set (rows @ [r]). chat_id x \<noteq> Some c
             | Some v \<Rightarrow> \<forall>x \<in> set (rows @ [r]). chat_id x = Some c \<longrightarrow> sender x = v)"
        if "Some c \<notin> insert (chat_id r) (banned_ids st)" for c
      proof -
        from that have "Some c \<notin> banned_ids st" "chat_id r \<noteq> Some c" by auto
        with ih_c [of c] show ?thesis by (auto split: option.splits)
      qed
      show ?thesis unfolding step st' using ih_t c by (simp add: d_def [symmetric])
    next
      case False
      then have st': "scan_row r st = st"
        using Some tv by (simp add: scan_row_def d_def)
      from False have eq: "sender r = v" by (auto dest: py_ne_False)
      have c: "(case ids_get d (Some c) of
               None \<Rightarrow> \<forall>x \<in> set (rows @ [r]). chat_id x \<noteq> Some c
             | Some v \<Rightarrow> \<forall>x \<in> set (rows @ [r]). chat_id x = Some c \<longrightarrow> sender x = v)"
        if "Some c \<notin> banned_ids st" for c
        using ih_c [OF that] Some c0 eq by (auto split: option.splits)
      show ?thesis unfolding step st' using ih_t c by (simp add: d_def [symmetric])
    qed
  qed
qed

lemma unbanned_single_sender_if_truthy:
  assumes "\<forall>r \<in> set rows. truthy (sender r)"
    and "Some c \<notin> get_group_chat_ids rows"
    and "r1 \<in> set rows" "chat_id r1 = Some c"
    and "r2 \<in> set rows" "chat_id r2 = Some c"
  shows "sender r1 = sender r2"
proof -
  have nb: "Some c \<notin> banned_ids (classifier_scan rows)"
    using assms(2) by (simp add: get_group_chat_ids_def)
  have "case ids_get (ids_to_senders (classifier_scan rows)) (Some c) of
               None \<Rightarrow> \<forall>r \<in> set rows. chat_id r \<noteq> Some c
             | Some v \<Rightarrow> \<forall>r \<in> set rows. chat_id r = Some c \<longrightarrow> sender r = v"
    using scan_invariant_truthy [OF assms(1)] nb by blast
  with assms(3-6) show ?thesis by (auto split: option.splits)
qed

lemma scan_row_other_chat:
  "chat_id r \<noteq> Some c \<Longrightarrow>
   ids_get (ids_to_senders (scan_row r st)) (Some c) = ids_get (ids_to_senders st) (Some c)"
  by (auto simp: scan_row_def ids_get_ids_set split: option.splits)

lemma fold_scan_other_chats:
  "\<forall>r \<in> set rows. chat_id r \<noteq> Some c \<Longrightarrow>
   ids_get (ids_to_senders (fold scan_row rows st)) (Some c) = ids_get (ids_to_senders st) (Some c)"
  by (induction rows arbitrary: st) (simp_all add: scan_row_other_chat)

text \<open>
  With the \<open>nan\<close> of an unmatched join as the null sender of the first row of an id,
  the id is recorded with \<open>nan\<close>, and the next row of the id, whatever its sender,
  bans it.
\<close>

lemma nan_first_seen_banned:
  assumes "\<forall>r \<in> set xs. chat_id r \<noteq> Some c"
    and "chat_id r1 = Some c" and "sender r1 = NaN"
    and "\<forall>r \<in> set ys. chat_id r \<noteq> Some c"
    and "chat_id r2 = Some c"
  shows "ids_get (ids_to_senders (classifier_scan (xs @ [r1] @ ys))) (Some c) = Some NaN"
    and "Some c \<in> get_group_chat_ids (xs @ [r1] @ ys @ [r2] @ zs)"
proof -
  define s0 where "s0 = fold scan_row xs scan_init"
  define s1 where "s1 = scan_row r1 s0"
  define s2 where "s2 = fold scan_row ys s1"
  define s3 where "s3 = scan_row r2 s2"
  have "ids_get (ids_to_senders s0) (Some c) = ids_get (ids_to_senders scan_init) (Some c)"
    unfolding s0_def using assms(1) by (rule fold_scan_other_chats)
  then have g0: "ids_get (ids_to_senders s0) (Some c) = None"
    by (simp add: scan_init_def ids_get_def)
  have g1: "ids_get (ids_to_senders s1) (Some c) = Some NaN"
    using g0 assms(2,3) by (simp add: s1_def scan_row_def ids_get_ids_set)
  have g2: "ids_get (ids_to_senders s2) (Some c) = Some NaN"
    unfolding s2_def using g1 fold_scan_other_chats [OF assms(4)] by simp
  have b3: "Some c \<in> banned_ids s3"
    using g2 assms(5) by (simp add: s3_def scan_row_def)
  have "banned_ids s3 \<subseteq> banned_ids (fold scan_row zs s3)" by (rule banned_fold_scan)
  with b3 have b4: "Some c \<in> banned_ids (fold scan_row zs s3)" by blast
  show "ids_get (ids_to_senders (classifier_scan (xs @ [r1] @ ys))) (Some c) = Some NaN"
    using g2 by (simp add: classifier_scan_def s0_def s1_def s2_def)
  show "Some c \<in> get_group_chat_ids (xs @ [r1] @ ys @ [r2] @ zs)"
    using b4 by (simp add: get_group_chat_ids_def classifier_scan_def s0_def s1_def s2_def s3_def)
qed

subsection \<open>The inversion\<close>

lemma map_of_fold_invert:
  "map_of (fold (\<lambda>(i, s) acc. dict_set acc s i) d acc) s =
     (case last_id_for d s of Some j \<Rightarrow> Some j | None \<Rightarrow> map_of acc s)"
proof (induction d arbitrary: acc)
  case Nil
  show ?case by simp
next
  case (Cons e d)
  obtain i s' where e: "e = (i, s')" by (cases e)
  show ?case
    by (simp add: e Cons.IH map_of_dict_set split: option.splits)
qed

lemma distinct_fold_invert:
  "distinct (map fst acc) \<Longrightarrow>
   distinct (map fst (fold (\<lambda>(i, s) acc. dict_set acc s i) d acc))"
proof (induction d arbitrary: acc)
  case Nil
  then show ?case by simp
next
  case (Cons e d)
  obtain i s' where e: "e = (i, s')" by (cases e)
  have "distinct (map fst (dict_set acc s' i))"
    using Cons.prems by (rule distinct_dict_set)
  then show ?case
    by (simp add: e Cons.IH)
qed

text \<open>
  Claim C7. \<open>get_dm_chat_ids\<close> returns the inversion of the dict of the ids that were
  not banned: it has one entry per sender, and a sender is mapped to the id of the last
  unbanned entry, in the dict's order, that records this sender; so of two unbanned ids
  with the same sender the later one wins.
\<close>

theorem dm_ids_inversion_last_wins:
  "distinct (map fst (get_dm_chat_ids df)) \<and>
   map_of (get_dm_chat_ids df) s = last_id_for (unbanned_entries df) s"
proof -
  have eq: "get_dm_chat_ids df = invert_dict (unbanned_entries df)"
    by (simp add: get_dm_chat_ids_def unbanned_entries_def get_group_chat_ids_def Let_def)
  have d: "distinct (map fst (invert_dict (unbanned_entries df)))"
    unfolding invert_dict_def by (rule distinct_fold_invert) simp
  have m: "map_of (invert_dict (unbanned_entries df)) s = last_id_for (unbanned_entries df) s"
    unfolding invert_dict_def by (simp add: map_of_fold_invert split: option.splits)
  from eq d m show ?thesis by simp
qed

theorem dm_ids_inversion_last_wins_witness:
  "unbanned_entries
     [mk_row 1 (Str ''Alice'') (Some 7), mk_row 2 (Str ''Alice'') (Some 5),
      mk_row 3 (Str ''Alice'') (Some 9), mk_row 4 (Str ''Bob'') (Some 5),
      mk_row 5 (Str ''Alice'') (Some 7)]
     = [(Some 7, Str ''Alice''), (Some 9, Str ''Alice'')]
   \<and> map_of (get_dm_chat_ids
     [mk_row 1 (Str ''Alice'') (Some 7), mk_row 2 (Str ''Alice'') (Some 5),
      mk_row 3 (Str ''Alice'') (Some 9), mk_row 4 (Str ''Bob'') (Some 5),
      mk_row 5 (Str ''Alice'') (Some 7)]) (Str ''Alice'') = Some (Some 9)"
proof -
  have u: "unbanned_entries
     [mk_row 1 (Str ''Alice'') (Some 7), mk_row 2 (Str ''Alice'') (Some 5),
      mk_row 3 (Str ''Alice'') (Some 9), mk_row 4 (Str ''Bob'') (Some 5),
      mk_row 5 (Str ''Alice'') (Some 7)]
     = [(Some 7, Str ''Alice''), (Some 9, Str ''Alice'')]"
    by (simp add: unbanned_entries_def get_group_chat_ids_def classifier_scan_def
        scan_init_def scan_row_def ids_get_def ids_set_def mk_row_def)
  show ?thesis
    using dm_ids_inversion_last_wins [of
      "[mk_row 1 (Str ''Alice'') (Some 7), mk_row 2 (Str ''Alice'') (Some 5),
        mk_row 3 (Str ''Alice'') (Some 9), mk_row 4 (Str ''Bob'') (Some 5),
        mk_row 5 (Str ''Alice'') (Some 7)]" "Str ''Alice''"]
    by (simp add: u)
qed

section \<open>Entry point: exit status\<close>

text \<open>
  Claim C9. Without a path argument the script prints the error line and exits with
  status 1; with a path argument it exits with status 1 as well, having printed
  nothing: the exit is reached in both cases and the analysis is never run.
\<close>

theorem main_always_exits_1:
  "main_block argv analysis out =
     (SystemExit 1,
      if length argv < 2
      then out @ [''ERROR: Please provide the path to your chat.db file.'']
      else out)"
  by (simp add: main_block_def seq_def py_print_def skip_def sys_exit_def)

theorem main_always_exits_1_witness:
  "main_block [''message-analysis.py''] py_print [] =
     (SystemExit 1, [''ERROR: Please provide the path to your chat.db file.''])
   \<and> main_block [''message-analysis.py'', ''chat.db''] py_print [] = (SystemExit 1, [])"
  using main_always_exits_1 [of "[''message-analysis.py'']" py_print "[]"]
    main_always_exits_1 [of "[''message-analysis.py'', ''chat.db'']" py_print "[]"]
  by simp

section \<open>Properties of the joiner\<close>

lemma filter_key_distinct:
  "distinct (map f xs) \<Longrightarrow> length (filter (\<lambda>x. f x = k) xs) \<le> 1"
proof (induction xs)
  case Nil
  show ?case by simp
next
  case (Cons x xs)
  show ?case
  proof (cases "f x = k")
    case True
    with Cons.prems have "k \<notin> f ` set xs" by auto
    then have "filter (\<lambda>x. f x = k) xs = []" by (auto simp: filter_empty_conv)
    with True show ?thesis by simp
  next
    case False
    with Cons show ?thesis by simp
  qed
qed

lemma merge_handles_keeps_messages:
  assumes "distinct (map h_handle_id handles)"
  shows "map fst (merge_handles messages handles) = messages"
proof -
  have one: "map fst (let matches = filter (\<lambda>h. h_handle_id h = handle_id m) handles
       in if matches = [] then [(m, NaN)] else map (\<lambda>h. (m, h_sender h)) matches) = [m]" for m
  proof -
    have "length (filter (\<lambda>h. h_handle_id h = handle_id m) handles) \<le> 1"
      using assms by (rule filter_key_distinct)
    then show ?thesis
      by (cases "filter (\<lambda>h. h_handle_id h = handle_id m) handles") (simp_all add: Let_def)
  qed
  show ?thesis
    unfolding merge_handles_def
    by (induction messages) (simp_all add: one)
qed

lemma merge_joins_messages:
  "map msg (merge_joins l1 js) =
     concat (map (\<lambda>m. replicate (max 1 (memberships js m)) m) (map fst l1))"
proof (induction l1)
  case Nil
  show ?case by (simp add: merge_joins_def)
next
  case (Cons e l1)
  obtain m s where e: "e = (m, s)" by (cases e)
  have chunk: "map msg (let matches = filter (\<lambda>j. j_message_id j = message_id m) js
       in if matches = [] then [\<lparr>msg = m, sender = s, chat_id = None\<rparr>]
          else map (\<lambda>j. \<lparr>msg = m, sender = s, chat_id = Some (j_chat_id j)\<rparr>) matches)
     = replicate (max 1 (memberships js m)) m"
  proof (cases "filter (\<lambda>j. j_message_id j = message_id m) js = []")
    case True
    then show ?thesis by (simp add: memberships_def)
  next
    case False
    then have "1 \<le> memberships js m"
      by (cases "filter (\<lambda>j. j_message_id j = message_id m) js") (simp_all add: memberships_def)
    then have "max 1 (memberships js m) = memberships js m" by simp
    with False show ?thesis
      by (simp add: Let_def comp_def map_replicate_const memberships_def)
  qed
  have "merge_joins (e # l1) js =
      (let matches = filter (\<lambda>j. j_message_id j = message_id m) js
       in if matches = [] then [\<lparr>msg = m, sender = s, chat_id = None\<rparr>]
          else map (\<lambda>j. \<lparr>msg = m, sender = s, chat_id = Some (j_chat_id j)\<rparr>) matches)
      @ merge_joins l1 js"
    by (simp add: merge_joins_def e)
  then show ?case
    using Cons.IH chunk by (simp add: e)
qed

lemma merge_data_messages:
  assumes "distinct (map h_handle_id handles)"
  shows "map msg (merge_data messages handles js) =
     concat (map (\<lambda>m. replicate (max 1 (memberships js m)) m) messages)"
  unfolding merge_data_def
  by (simp add: merge_joins_messages merge_handles_keeps_messages [OF assms])

lemma length_concat_replicate:
  "length (concat (map (\<lambda>m. replicate (k m) m) ms)) = sum_list (map k ms)"
  by (induction ms) simp_all

lemma sum_list_all_one:
  "\<forall>m \<in> set ms. k m = (1::nat) \<Longrightarrow> sum_list (map k ms) = length ms"
  by (induction ms) simp_all

text \<open>
  Claim C6. With unique handle ids, the joined table consists of the message rows in
  their order, each one present once when it has no or one membership link and \<open>k\<close>
  times when it has \<open>k > 1\<close> links. So no message is dropped, the row count is the sum
  of these multiplicities, and it is the message count when no message has several
  links.
\<close>

theorem merge_data_row_count:
  assumes "distinct (map h_handle_id handles)"
  shows "map msg (merge_data messages handles js) =
           concat (map (\<lambda>m. replicate (max 1 (memberships js m)) m) messages)
       \<and> length (merge_data messages handles js) =
           sum_list (map (\<lambda>m. max 1 (memberships js m)) messages)
       \<and> ((\<forall>m \<in> set messages. memberships js m \<le> 1) \<longrightarrow>
           length (merge_data messages handles js) = length messages)"
proof -
  have a: "map msg (merge_data messages handles js) =
           concat (map (\<lambda>m. replicate (max 1 (memberships js m)) m) messages)"
    using assms by (rule merge_data_messages)
  have "length (merge_data messages handles js) = length (map msg (merge_data messages handles js))"
    by simp
  also have "\<dots> = sum_list (map (\<lambda>m. max 1 (memberships js m)) messages)"
    unfolding a by (rule length_concat_replicate)
  finally have b: "length (merge_data messages handles js) =
           sum_list (map (\<lambda>m. max 1 (memberships js m)) messages)" .
  have c: "length (merge_data messages handles js) = length messages"
    if "\<forall>m \<in> set messages. memberships js m \<le> 1"
  proof -
    from that have "\<forall>m \<in> set messages. max 1 (memberships js m) = 1" by (auto simp: max_def)
    then have "sum_list (map (\<lambda>m. max 1 (memberships js m)) messages) = length messages"
      by (rule sum_list_all_one)
    with b show ?thesis by simp
  qed
  from a b c show ?thesis by blast
qed

theorem merge_data_row_count_witness:
  "distinct (map h_handle_id [\<lparr>h_handle_id = 1, h_sender = Str ''Jordan''\<rparr>])
   \<and> length (merge_data [blank_message 10, blank_message 11, blank_message 12]
        [\<lparr>h_handle_id = 1, h_sender = Str ''Jordan''\<rparr>]
        [\<lparr>j_chat_id = 5, j_message_id = 10\<rparr>, \<lparr>j_chat_id = 7, j_message_id = 10\<rparr>,
         \<lparr>j_chat_id = 5, j_message_id = 11\<rparr>]) = 4
   \<and> length (merge_data [blank_message 10, blank_message 11, blank_message 12]
        [\<lparr>h_handle_id = 1, h_sender = Str ''Jordan''\<rparr>]
        [\<lparr>j_chat_id = 5, j_message_id = 10\<rparr>, \<lparr>j_chat_id = 5, j_message_id = 11\<rparr>]) = 3"
proof -
  have h: "distinct (map h_handle_id [\<lparr>h_handle_id = 1, h_sender = Str ''Jordan''\<rparr>])"
    by simp
  show ?thesis
    using h
      merge_data_row_count [OF h, of "[blank_message 10, blank_message 11, blank_message 12]"
        "[\<lparr>j_chat_id = 5, j_message_id = 10\<rparr>, \<lparr>j_chat_id = 7, j_message_id = 10\<rparr>,
          \<lparr>j_chat_id = 5, j_message_id = 11\<rparr>]"]
      merge_data_row_count [OF h, of "[blank_message 10, blank_message 11, blank_message 12]"
        "[\<lparr>j_chat_id = 5, j_message_id = 10\<rparr>, \<lparr>j_chat_id = 5, j_message_id = 11\<rparr>]"]
    by (simp add: memberships_def blank_message_def)
qed

section \<open>Properties of the filters\<close>

lemma select_rows_map: "select_rows t (map P t) = filter P t"
  by (induction t) (simp_all add: select_rows_def)

lemma mset_select_rows: "mset (select_rows t msk) \<subseteq># mset t"
proof (induction t arbitrary: msk)
  case Nil
  show ?case by (simp add: select_rows_def)
next
  case (Cons r t)
  show ?case
  proof (cases msk)
    case Nil
    then show ?thesis by (simp add: select_rows_def)
  next
    case (Cons b bs)
    have "mset (select_rows t bs) \<subseteq># mset t" by (rule Cons.IH)
    then have "mset (select_rows t bs) \<subseteq># add_mset r (mset t)"
      by (metis add_mset_add_single subset_mset.add_increasing2 empty_le)
    with \<open>mset (select_rows t bs) \<subseteq># mset t\<close> Cons show ?thesis
      by (simp add: select_rows_def)
  qed
qed

lemma getitem_mask_frames:
  assumes "df < length h" and "getitem_mask h df msk = (df', h')"
  shows "take (length h) h' = h \<and> h' ! df = h ! df \<and> mset (h' ! df') \<subseteq># mset (h ! df)"
proof -
  from assms(2) have df': "df' = length h" and h': "h' = h @ [select_rows (h ! df) msk]"
    by (simp_all add: getitem_mask_def)
  have "h' ! df' = select_rows (h ! df) msk" by (simp add: df' h')
  moreover have "h' ! df = h ! df" using assms(1) by (simp add: h' nth_append)
  moreover have "take (length h) h' = h" by (simp add: h')
  ultimately show ?thesis by (simp add: mset_select_rows)
qed

lemma those_str_contains:
  "those (map (\<lambda>r. str_contains ObjectDtype (sender r)) t) = None \<longleftrightarrow>
     (\<exists>r \<in> set t. is_null (sender r))"
proof (induction t)
  case Nil
  show ?case by simp
next
  case (Cons r t)
  show ?case
    using Cons.IH by (cases "sender r") (auto split: option.splits)
qed

lemma those_str_contains_str_dtype:
  "those (map (\<lambda>r. str_contains StrDtype (sender r)) t) \<noteq> None"
proof (induction t)
  case Nil
  show ?case by simp
next
  case (Cons r t)
  show ?case
    using Cons.IH by (cases "sender r") (auto split: option.splits)
qed

text \<open>
  On an object column, a null sender anywhere in the table makes
  \<open>remove_no_contact_senders\<close> raise \<open>TypeError\<close>, and a table without null senders
  is filtered. On a str column the function returns for every table.
\<close>

lemma object_null_sender_raises:
  assumes "\<exists>r \<in> set (h ! df). is_null (sender r)"
  shows "remove_no_contact_senders ObjectDtype h df = Inl TypeError"
proof -
  have "those (map (\<lambda>r. str_contains ObjectDtype (sender r)) (h ! df)) = None"
    using assms by (simp add: those_str_contains)
  then show ?thesis
    by (simp add: remove_no_contact_senders_def invert_mask_def)
qed

lemma object_no_null_returns:
  assumes "\<not> (\<exists>r \<in> set (h ! df). is_null (sender r))"
  shows "\<exists>res. remove_no_contact_senders ObjectDtype h df = Inr res"
proof -
  have "those (map (\<lambda>r. str_contains ObjectDtype (sender r)) (h ! df)) \<noteq> None"
    using assms by (simp add: those_str_contains)
  then show ?thesis
    by (auto simp: remove_no_contact_senders_def invert_mask_def split: option.splits)
qed

lemma str_dtype_returns: "\<exists>res. remove_no_contact_senders StrDtype h df = Inr res"
  using those_str_contains_str_dtype [of "h ! df"]
  by (auto simp: remove_no_contact_senders_def invert_mask_def split: option.splits)

text \<open>
  Claim C8 says that \<open>remove_no_contact_senders\<close> returns a table for a joined table
  with a null sender, the null row absorbed. With pandas up to version 2 it does not:
  a message whose handle matches no row of the handle table leaves the left join of
  \<open>merge_data\<close> with the sender \<open>nan\<close>, the mask that \<open>str.contains\<close> computes holds a
  missing value at that row, and its negation raises \<open>TypeError\<close>.
\<close>

theorem null_sender_raises:
  "merge_data [blank_message 1] [\<lparr>h_handle_id = 1, h_sender = Str ''Jordan''\<rparr>]
       [\<lparr>j_chat_id = 5, j_message_id = 1\<rparr>]
     = [mk_row 1 NaN (Some 5)]
   \<and> remove_no_contact_senders ObjectDtype [ [mk_row 1 NaN (Some 5)] ] 0 = Inl TypeError"
  by (simp add: merge_data_def merge_handles_def merge_joins_def blank_message_def
      remove_no_contact_senders_def invert_mask_def mk_row_def)

text \<open>
  Claim C10. Each of the four filters, where it returns, leaves every frame of the
  store as it was, the input frame among them, and the rows of the frame it returns
  are a sub-multiset of the input's rows.
\<close>

theorem filters_keep_rows:
  assumes "df < length h"
  shows "(remove_no_contact_senders dt h df = Inr (df', h') \<longrightarrow>
            take (length h) h' = h \<and> h' ! df = h ! df \<and> mset (h' ! df') \<subseteq># mset (h ! df))
       \<and> (filter_groups h df = (df', h') \<longrightarrow>
            take (length h) h' = h \<and> h' ! df = h ! df \<and> mset (h' ! df') \<subseteq># mset (h ! df))
       \<and> (filter_funusha h df = (df', h') \<longrightarrow>
            take (length h) h' = h \<and> h' ! df = h ! df \<and> mset (h' ! df') \<subseteq># mset (h ! df))
       \<and> (single_chat h df c = (df', h') \<longrightarrow>
            take (length h) h' = h \<and> h' ! df = h ! df \<and> mset (h' ! df') \<subseteq># mset (h ! df))"
proof -
  have a: "take (length h) h' = h \<and> h' ! df = h ! df \<and> mset (h' ! df') \<subseteq># mset (h ! df)"
    if "remove_no_contact_senders dt h df = Inr (df', h')"
  proof -
    from that obtain msk where "getitem_mask h df msk = (df', h')"
      by (auto simp: remove_no_contact_senders_def split: sum.splits)
    with assms show ?thesis by (rule getitem_mask_frames)
  qed
  have b: "take (length h) h' = h \<and> h' ! df = h ! df \<and> mset (h' ! df') \<subseteq># mset (h ! df)"
    if "filter_groups h df = (df', h')"
    using assms that unfolding filter_groups_def Let_def by (rule getitem_mask_frames)
  have c: "take (length h) h' = h \<and> h' ! df = h ! df \<and> mset (h' ! df') \<subseteq># mset (h ! df)"
    if "filter_funusha h df = (df', h')"
    using assms that unfolding filter_funusha_def by (rule getitem_mask_frames)
  have d: "take (length h) h' = h \<and> h' ! df = h ! df \<and> mset (h' ! df') \<subseteq># mset (h ! df)"
    if "single_chat h df c = (df', h')"
    using assms that unfolding single_chat_def by (rule getitem_mask_frames)
  from a b c d show ?thesis by blast
qed

theorem filters_keep_rows_witness:
  "(0::nat) < length [ [mk_row 1 (Str ''Jordan'') (Some 12), mk_row 2 (Str ''+15551234567'') (Some 5)] ]
   \<and> remove_no_contact_senders ObjectDtype
        [ [mk_row 1 (Str ''Jordan'') (Some 12), mk_row 2 (Str ''+15551234567'') (Some 5)] ] 0
      = Inr (1, [ [mk_row 1 (Str ''Jordan'') (Some 12), mk_row 2 (Str ''+15551234567'') (Some 5)],
                 [mk_row 1 (Str ''Jordan'') (Some 12)] ])
   \<and> mset [mk_row 1 (Str ''Jordan'') (Some 12)]
        \<subseteq># mset [mk_row 1 (Str ''Jordan'') (Some 12), mk_row 2 (Str ''+15551234567'') (Some 5)]
   \<and> filter_funusha
        [ [mk_row 1 (Str ''Jordan'') (Some 12), mk_row 2 (Str ''+15551234567'') (Some 5)] ] 0
      = (1, [ [mk_row 1 (Str ''Jordan'') (Some 12), mk_row 2 (Str ''+15551234567'') (Some 5)],
             [mk_row 2 (Str ''+15551234567'') (Some 5)] ])
   \<and> mset [mk_row 2 (Str ''+15551234567'') (Some 5)]
        \<subseteq># mset [mk_row 1 (Str ''Jordan'') (Some 12), mk_row 2 (Str ''+15551234567'') (Some 5)]"
proof -
  have len: "(0::nat) < length
      [ [mk_row 1 (Str ''Jordan'') (Some 12), mk_row 2 (Str ''+15551234567'') (Some 5)] ]"
    by simp
  have r: "remove_no_contact_senders ObjectDtype
        [ [mk_row 1 (Str ''Jordan'') (Some 12), mk_row 2 (Str ''+15551234567'') (Some 5)] ] 0
      = Inr (1, [ [mk_row 1 (Str ''Jordan'') (Some 12), mk_row 2 (Str ''+15551234567'') (Some 5)],
                 [mk_row 1 (Str ''Jordan'') (Some 12)] ])"
    by (simp add: remove_no_contact_senders_def invert_mask_def getitem_mask_def
        select_rows_def no_contact_pattern_def is_digit_def mk_row_def)
  have f: "filter_funusha
        [ [mk_row 1 (Str ''Jordan'') (Some 12), mk_row 2 (Str ''+15551234567'') (Some 5)] ] 0
      = (1, [ [mk_row 1 (Str ''Jordan'') (Some 12), mk_row 2 (Str ''+15551234567'') (Some 5)],
             [mk_row 2 (Str ''+15551234567'') (Some 5)] ])"
    by (simp add: filter_funusha_def getitem_mask_def select_rows_def mk_row_def)
  show ?thesis
    using len r f
      filters_keep_rows [OF len, of ObjectDtype 1
        "[ [mk_row 1 (Str ''Jordan'') (Some 12), mk_row 2 (Str ''+15551234567'') (Some 5)],
          [mk_row 1 (Str ''Jordan'') (Some 12)] ]" 5]
      filters_keep_rows [OF len, of ObjectDtype 1
        "[ [mk_row 1 (Str ''Jordan'') (Some 12), mk_row 2 (Str ''+15551234567'') (Some 5)],
          [mk_row 2 (Str ''+15551234567'') (Some 5)] ]" 5]
    by simp
qed

section \<open>Properties of the aggregators\<close>

lemma count_list_map_filter:
  "count_list (List.map_filter f xs) k = length (filter (\<lambda>x. f x = Some k) xs)"
  by (induction xs) (auto simp: List.map_filter_simps split: option.splits)

lemma set_map_filter: "set (List.map_filter f xs) = {k. \<exists>x \<in> set xs. f x = Some k}"
  by (induction xs) (auto simp: List.map_filter_simps split: option.splits)

lemma group_key_Some:
  "group_key r = Some (p, s) \<longleftrightarrow> year_month (msg r) = p \<and> sender r = Str s"
  by (auto simp: group_key_def split: cell.splits)

lemma groupby_count_keys: "distinct (map fst (groupby_count df)) \<and> sorted (map fst (groupby_count df))"
  by (simp add: groupby_count_def Let_def comp_def)

lemma groupby_count_counts:
  "((p, s), c) \<in> set (groupby_count df) \<longleftrightarrow>
     c = int (length (filter (\<lambda>r. year_month (msg r) = p \<and> sender r = Str s) df)) \<and> 0 < c"
proof -
  let ?keys = "List.map_filter group_key df"
  have cnt: "count_list ?keys (p, s) =
      length (filter (\<lambda>r. year_month (msg r) = p \<and> sender r = Str s) df)"
    by (simp add: count_list_map_filter group_key_Some)
  have mem: "(p, s) \<in> set ?keys \<longleftrightarrow> 0 < count_list ?keys (p, s)"
    by (simp add: count_list_0_iff zero_less_iff_neq_zero)
  have "((p, s), c) \<in> set (groupby_count df) \<longleftrightarrow>
      (p, s) \<in> set ?keys \<and> c = int (count_list ?keys (p, s))"
    by (auto simp: groupby_count_def Let_def)
  with cnt mem show ?thesis by auto
qed

lemma insort_key_cong_on:
  "\<forall>y \<in> set ys. (f x \<le> f y) = (g x \<le> g y) \<Longrightarrow> insort_key f x ys = insort_key g x ys"
  by (induction ys) simp_all

lemma sort_key_cong_on:
  "\<forall>x \<in> set xs. \<forall>y \<in> set xs. (f x \<le> f y) = (g x \<le> g y) \<Longrightarrow>
   sort_key f xs = sort_key g xs"
proof (induction xs)
  case Nil
  show ?case by simp
next
  case (Cons x xs)
  have ih: "sort_key f xs = sort_key g xs" using Cons by simp
  have "\<forall>y \<in> set (sort_key g xs). (f x \<le> f y) = (g x \<le> g y)" using Cons.prems by simp
  then have "insort_key f x (sort_key g xs) = insort_key g x (sort_key g xs)"
    by (rule insort_key_cong_on)
  with ih show ?case by simp
qed

lemma period_rows_sort_values:
  "period_rows p (sort_values t) = sort_key (\<lambda>r. - snd r) (period_rows p t)"
proof -
  have "period_rows p (sort_values t) =
      sort_key (\<lambda>r. (fst (fst r), - snd r)) (period_rows p t)"
    by (simp add: period_rows_def sort_values_def filter_sort)
  also have "\<dots> = sort_key (\<lambda>r. - snd r) (period_rows p t)"
    by (rule sort_key_cong_on) (simp add: period_rows_def)
  finally show ?thesis .
qed

lemma period_rows_group_head:
  "period_rows p (group_head n seen t) = take (n - count_list seen p) (period_rows p t)"
proof (induction t arbitrary: seen)
  case Nil
  show ?case by (simp add: period_rows_def)
next
  case (Cons r t)
  have ih: "period_rows p (group_head n (fst (fst r) # seen) t) =
      take (n - count_list (fst (fst r) # seen) p) (period_rows p t)"
    by (rule Cons.IH)
  show ?case
  proof (cases "fst (fst r) = p")
    case True
    show ?thesis
    proof (cases "count_list seen p < n")
      case lt: True
      then obtain k where k: "n - count_list seen p = Suc k" "n - Suc (count_list seen p) = k"
        by (cases "n - count_list seen p") auto
      have "period_rows p (group_head n seen (r # t)) =
          r # period_rows p (group_head n (p # seen) t)"
        using True lt by (simp add: period_rows_def)
      also have "\<dots> = r # take k (period_rows p t)"
        using ih True k by simp
      also have "\<dots> = take (n - count_list seen p) (period_rows p (r # t))"
        using True k by (simp add: period_rows_def)
      finally show ?thesis .
    next
      case ge: False
      then have z: "n - count_list seen p = 0" "n - Suc (count_list seen p) = 0" by simp_all
      have "period_rows p (group_head n seen (r # t)) =
          period_rows p (group_head n (p # seen) t)"
        using True ge by simp
      also have "\<dots> = []" using ih True z by simp
      finally show ?thesis using z by simp
    qed
  next
    case False
    have "period_rows p (group_head n seen (r # t)) =
        period_rows p (group_head n (fst (fst r) # seen) t)"
      using False by (simp add: period_rows_def)
    also have "\<dots> = take (n - count_list seen p) (period_rows p t)"
      using ih False by simp
    also have "\<dots> = take (n - count_list seen p) (period_rows p (r # t))"
      using False by (simp add: period_rows_def)
    finally show ?thesis .
  qed
qed

lemma top_senders_period:
  "period_rows p (get_top_senders_by_month df n) = take n (ranked_senders df p)"
  by (simp add: get_top_senders_by_month_def Let_def period_rows_group_head
      period_rows_sort_values ranked_senders_def)

lemma distinct_ranked_senders: "distinct (ranked_senders df p)"
proof -
  have "distinct (map fst (groupby_count df))" by (simp add: groupby_count_keys)
  then have "distinct (groupby_count df)" by (simp add: distinct_map)
  then show ?thesis by (simp add: ranked_senders_def period_rows_def)
qed

lemma ranked_senders_period: "r \<in> set (ranked_senders df p) \<Longrightarrow> fst (fst r) = p"
  by (simp add: ranked_senders_def period_rows_def)

lemma past_top_x_dropped:
  assumes "n \<le> i" and "i < length (ranked_senders df p)"
  shows "ranked_senders df p ! i \<notin> set (get_top_senders_by_month df n)"
proof
  let ?L = "ranked_senders df p"
  assume "?L ! i \<in> set (get_top_senders_by_month df n)"
  moreover have "fst (fst (?L ! i)) = p"
    using assms(2) by (intro ranked_senders_period [of _ df p]) simp
  ultimately have "?L ! i \<in> set (period_rows p (get_top_senders_by_month df n))"
    by (simp add: period_rows_def)
  then have "?L ! i \<in> set (take n ?L)" by (simp add: top_senders_period)
  then obtain j where j: "j < n" "j < length ?L" "?L ! j = ?L ! i"
    by (auto simp: in_set_conv_nth)
  with assms distinct_ranked_senders [of df p] have "j = i"
    by (simp add: nth_eq_iff_index_eq)
  with j assms show False by simp
qed

text \<open>
  Claim C4. The grouped table has one row for each (period, sender) pair that occurs,
  with the number of its messages. For every period, the rows of the result are the
  first \<open>n\<close> of the period's senders ranked by descending count, senders of equal count
  staying in the order of the grouped table; a sender at rank \<open>n\<close> or later in a
  period has no row in the result.
\<close>

theorem top_senders_by_month_ranked:
  "distinct (map fst (groupby_count df))
   \<and> (((q, s), k) \<in> set (groupby_count df) \<longleftrightarrow>
        k = int (length (filter (\<lambda>r. year_month (msg r) = q \<and> sender r = Str s) df)) \<and> 0 < k)
   \<and> period_rows p (get_top_senders_by_month df n) = take n (ranked_senders df p)
   \<and> sorted (map (\<lambda>r. - snd r) (ranked_senders df p))
   \<and> filter (\<lambda>r. snd r = c) (ranked_senders df p) =
        filter (\<lambda>r. snd r = c) (period_rows p (groupby_count df))
   \<and> (n \<le> i \<and> i < length (ranked_senders df p) \<longrightarrow>
        ranked_senders df p ! i \<notin> set (get_top_senders_by_month df n))"
proof -
  have a: "distinct (map fst (groupby_count df))" by (simp add: groupby_count_keys)
  have b: "((q, s), k) \<in> set (groupby_count df) \<longleftrightarrow>
        k = int (length (filter (\<lambda>r. year_month (msg r) = q \<and> sender r = Str s) df)) \<and> 0 < k"
    by (rule groupby_count_counts)
  have c: "period_rows p (get_top_senders_by_month df n) = take n (ranked_senders df p)"
    by (rule top_senders_period)
  have d: "sorted (map (\<lambda>r. - snd r) (ranked_senders df p))"
    by (simp add: ranked_senders_def)
  have "filter (\<lambda>r. - snd r = - c) (sort_key (\<lambda>r. - snd r) (period_rows p (groupby_count df))) =
        filter (\<lambda>r. - snd r = - c) (period_rows p (groupby_count df))"
    by (rule sort_key_stable)
  then have e: "filter (\<lambda>r. snd r = c) (ranked_senders df p) =
        filter (\<lambda>r. snd r = c) (period_rows p (groupby_count df))"
    by (simp add: ranked_senders_def)
  have f: "ranked_senders df p ! i \<notin> set (get_top_senders_by_month df n)"
    if "n \<le> i" "i < length (ranked_senders df p)"
    using that by (rule past_top_x_dropped)
  from a b c d e f show ?thesis by blast
qed

theorem top_senders_by_month_ranked_witness:
  "get_top_senders_by_month
     [mk_row 1 (Str ''D'') (Some 1), mk_row 2 (Str ''A'') (Some 1), mk_row 3 (Str ''B'') (Some 1),
      mk_row 4 (Str ''A'') (Some 1), mk_row 5 (Str ''C'') (Some 1), mk_row 6 (Str ''B'') (Some 1),
      mk_row 7 (Str ''A'') (Some 1)] 3
     = [((0, ''A''), 3), ((0, ''B''), 2), ((0, ''C''), 1)]
   \<and> ranked_senders
     [mk_row 1 (Str ''D'') (Some 1), mk_row 2 (Str ''A'') (Some 1), mk_row 3 (Str ''B'') (Some 1),
      mk_row 4 (Str ''A'') (Some 1), mk_row 5 (Str ''C'') (Some 1), mk_row 6 (Str ''B'') (Some 1),
      mk_row 7 (Str ''A'') (Some 1)] 0
     = [((0, ''A''), 3), ((0, ''B''), 2), ((0, ''C''), 1), ((0, ''D''), 1)]
   \<and> ((0, ''D''), 1) \<notin> set (get_top_senders_by_month
     [mk_row 1 (Str ''D'') (Some 1), mk_row 2 (Str ''A'') (Some 1), mk_row 3 (Str ''B'') (Some 1),
      mk_row 4 (Str ''A'') (Some 1), mk_row 5 (Str ''C'') (Some 1), mk_row 6 (Str ''B'') (Some 1),
      mk_row 7 (Str ''A'') (Some 1)] 3)"
proof -
  have t: "get_top_senders_by_month
     [mk_row 1 (Str ''D'') (Some 1), mk_row 2 (Str ''A'') (Some 1), mk_row 3 (Str ''B'') (Some 1),
      mk_row 4 (Str ''A'') (Some 1), mk_row 5 (Str ''C'') (Some 1), mk_row 6 (Str ''B'') (Some 1),
      mk_row 7 (Str ''A'') (Some 1)] 3
     = [((0, ''A''), 3), ((0, ''B''), 2), ((0, ''C''), 1)]"
    by code_simp
  have r: "ranked_senders
     [mk_row 1 (Str ''D'') (Some 1), mk_row 2 (Str ''A'') (Some 1), mk_row 3 (Str ''B'') (Some 1),
      mk_row 4 (Str ''A'') (Some 1), mk_row 5 (Str ''C'') (Some 1), mk_row 6 (Str ''B'') (Some 1),
      mk_row 7 (Str ''A'') (Some 1)] 0
     = [((0, ''A''), 3), ((0, ''B''), 2), ((0, ''C''), 1), ((0, ''D''), 1)]"
    by code_simp
  have i: "(3::nat) \<le> 3 \<and> 3 < length (ranked_senders
     [mk_row 1 (Str ''D'') (Some 1), mk_row 2 (Str ''A'') (Some 1), mk_row 3 (Str ''B'') (Some 1),
      mk_row 4 (Str ''A'') (Some 1), mk_row 5 (Str ''C'') (Some 1), mk_row 6 (Str ''B'') (Some 1),
      mk_row 7 (Str ''A'') (Some 1)] 0)"
    by (simp add: r)
  show ?thesis
    using i top_senders_by_month_ranked [of
     "[mk_row 1 (Str ''D'') (Some 1), mk_row 2 (Str ''A'') (Some 1), mk_row 3 (Str ''B'') (Some 1),
      mk_row 4 (Str ''A'') (Some 1), mk_row 5 (Str ''C'') (Some 1), mk_row 6 (Str ''B'') (Some 1),
      mk_row 7 (Str ''A'') (Some 1)]" 0 "''A''" 3 0 3 1 3]
    by (simp add: t r)
qed

section \<open>Properties of the ranker\<close>


















end
